theory Spec2Isabelle
  imports Main
begin

section \<open>JavaScript strings\<close>

text \<open>
  A JavaScript string is a sequence of UTF-16 code units. The form's field values are
  such strings; the fixed texts of the program (keys, messages, tag names) are ASCII
  and are written as HOL strings.
\<close>

type_synonym jsstring = "nat list"

definition js :: "string \<Rightarrow> jsstring" where
  "js s = map of_char s"

text \<open>
  The code units that \<^verbatim>\<open>String.prototype.trim\<close> strips and that \<^verbatim>\<open>\s\<close> matches:
  WhiteSpace (TAB, VT, FF, SP, NBSP, ZWNBSP and the space separators) and
  LineTerminator (LF, CR, LS, PS).
\<close>

definition is_ws :: "nat \<Rightarrow> bool" where
  "is_ws c = (c \<in> set [9, 10, 11, 12, 13, 32, 160, 5760, 8232, 8233, 8239, 8287, 12288, 65279]
     \<or> (8192 \<le> c \<and> c \<le> 8202))"

definition trim :: "jsstring \<Rightarrow> jsstring" where
  "trim s = rev (dropWhile is_ws (rev (dropWhile is_ws s)))"

section \<open>Regular expressions\<close>

text \<open>
  The fragment of regular expressions that \<^verbatim>\<open>emailRx\<close> is written in, matched by
  derivatives. \<^verbatim>\<open>RegExp.prototype.test\<close> on a pattern anchored by \<^verbatim>\<open>^\<close> and \<^verbatim>\<open>$\<close>
  (no flags) asks whether the whole string is in the language.
\<close>

datatype rx =
    RNone
  | REps
  | RClass "nat \<Rightarrow> bool"
  | RSeq rx rx
  | RAlt rx rx
  | RStar rx

definition RPlus :: "rx \<Rightarrow> rx" where
  "RPlus r = RSeq r (RStar r)"

definition RChar :: "char \<Rightarrow> rx" where
  "RChar ch = RClass (\<lambda>c. c = of_char ch)"

fun nullable :: "rx \<Rightarrow> bool" where
  "nullable RNone = False"
| "nullable REps = True"
| "nullable (RClass p) = False"
| "nullable (RSeq r s) = (nullable r \<and> nullable s)"
| "nullable (RAlt r s) = (nullable r \<or> nullable s)"
| "nullable (RStar r) = True"

fun deriv :: "nat \<Rightarrow> rx \<Rightarrow> rx" where
  "deriv c RNone = RNone"
| "deriv c REps = RNone"
| "deriv c (RClass p) = (if p c then REps else RNone)"
| "deriv c (RSeq r s) =
     (if nullable r then RAlt (RSeq (deriv c r) s) (deriv c s) else RSeq (deriv c r) s)"
| "deriv c (RAlt r s) = RAlt (deriv c r) (deriv c s)"
| "deriv c (RStar r) = RSeq (deriv c r) (RStar r)"

fun rx_test :: "rx \<Rightarrow> jsstring \<Rightarrow> bool" where
  "rx_test r [] = nullable r"
| "rx_test r (c # cs) = rx_test (deriv c r) cs"

section \<open>Contact form\<close>

record form_values =
  name :: jsstring
  email :: jsstring
  organization :: jsstring
  role :: jsstring
  interests :: "jsstring list"
  message :: jsstring
  website :: jsstring

datatype form_effect =
    PreventDefault
  | Alert string
  | ConsoleLog string form_values

text \<open>
  The state of \<^verbatim>\<open>useContactForm\<close>: the two pieces of React state, and the calls the
  hook has made on the outside world, oldest first. The \<^verbatim>\<open>errors\<close> object is an
  association list in insertion order, which is the order of \<^verbatim>\<open>Object.keys\<close>.
\<close>

record form =
  "values" :: form_values
  errors :: "(string \<times> string) list"
  effects :: "form_effect list"

definition initial_values :: form_values where
  "initial_values = \<lparr>name = [], email = [], organization = [], role = [], interests = [],
     message = [], website = []\<rparr>"

definition initial_form :: form where
  "initial_form = \<lparr>values = initial_values, errors = [], effects = []\<rparr>"

text \<open>\<^verbatim>\<open>/^[^\s@]+@[^\s@]+\.[^\s@]+$/\<close>\<close>

definition not_space_at :: "nat \<Rightarrow> bool" where
  "not_space_at c = (\<not> (is_ws c \<or> c = of_char CHR ''@''))"

definition emailRx :: rx where
  "emailRx =
     RSeq (RPlus (RClass not_space_at))
       (RSeq (RChar CHR ''@'')
         (RSeq (RPlus (RClass not_space_at))
           (RSeq (RChar CHR ''.'')
             (RPlus (RClass not_space_at)))))"

text \<open>
  \<^verbatim>\<open>validate\<close>: builds the error object field by field, stores it with
  \<^verbatim>\<open>setErrors\<close> and returns whether it has no key. An empty string is falsy.
\<close>

definition validate_errors :: "form_values \<Rightarrow> (string \<times> string) list" where
  "validate_errors v =
     (if trim (name v) = [] then [(''name'', ''Please enter your name.'')] else []) @
     (if trim (email v) = [] \<or> \<not> rx_test emailRx (email v)
      then [(''email'', ''Enter a valid email.'')] else []) @
     (if trim (organization v) = [] then [(''organization'', ''Organization is required.'')]
      else []) @
     (if website v \<noteq> [] then [(''website'', ''Spam detected.'')] else [])"

definition validate :: "form \<Rightarrow> bool \<times> form" where
  "validate f =
     (let e = validate_errors (values f)
      in (length (map fst e) = 0, f\<lparr>errors := e\<rparr>))"

definition thanks :: string where
  "thanks = ''Thanks! This is a demo. In production this would post to your backend or Formspree.''"

definition submit :: "form \<Rightarrow> form" where
  "submit f =
     (let f1 = f\<lparr>effects := effects f @ [PreventDefault]\<rparr>;
          (ok, f2) = validate f1
      in if \<not> ok then f2
         else f2\<lparr>effects := effects f2 @ [Alert thanks, ConsoleLog ''Form:'' (values f2)]\<rparr>)"

text \<open>Concrete forms used below.\<close>

definition blank_org_form :: form where
  "blank_org_form =
     initial_form\<lparr>values := initial_values\<lparr>email := js ''not-an-email'',
       organization := js '' ''\<rparr>\<rparr>"

definition bad_email_form :: form where
  "bad_email_form =
     initial_form\<lparr>values := initial_values\<lparr>email := js ''not-an-email'',
       organization := js ''UWS''\<rparr>\<rparr>"

definition good_values :: form_values where
  "good_values = initial_values\<lparr>name := js ''Ada'', email := js ''ada@uws.ac.uk'',
     organization := js ''UWS''\<rparr>"

definition spam_form :: form where
  "spam_form = initial_form\<lparr>values := good_values\<lparr>website := js ''x''\<rparr>\<rparr>"

definition retry_form :: form where
  "retry_form = \<lparr>values = good_values,
     errors = [(''name'', ''Please enter your name.'')], effects = [PreventDefault]\<rparr>"

section \<open>Scroll-spy tracker and section navigator\<close>

text \<open>
  The part of the page these two read: its elements in document order, each with an
  identity and its \<^verbatim>\<open>id\<close> attribute.
\<close>

record dom_element =
  el_ref :: nat
  el_id :: string

definition getElementById :: "dom_element list \<Rightarrow> string \<Rightarrow> dom_element option" where
  "getElementById doc i = find (\<lambda>e. el_id e = i) doc"

record entry =
  target :: dom_element
  isIntersecting :: bool

datatype scroll_request = ScrollIntoView dom_element string string

text \<open>
  The state of \<^verbatim>\<open>InteractiveLearningPro\<close> that the tracker and \<^verbatim>\<open>jump\<close> touch:
  the React state \<^verbatim>\<open>active\<close>, the document, the targets the observer watches, and
  the scroll requests made so far (each with its \<^verbatim>\<open>behavior\<close> and \<^verbatim>\<open>block\<close>).
\<close>

record spy =
  active :: string
  document :: "dom_element list"
  observed :: "dom_element list"
  scrolled :: "scroll_request list"

definition sections :: "string list" where
  "sections = [''home'', ''activities'', ''methodology'', ''solutions'', ''about'', ''contact'']"

text \<open>
  First render and the mount effect: \<^verbatim>\<open>useState("home")\<close>, then every declared
  section whose element exists is handed to \<^verbatim>\<open>obs.observe\<close>.
\<close>

definition mounted :: "dom_element list \<Rightarrow> spy" where
  "mounted doc = \<lparr>active = ''home'', document = doc,
     observed = List.map_filter (getElementById doc) sections, scrolled = []\<rparr>"

text \<open>The observer's callback: \<^verbatim>\<open>entries.forEach(e => { if (e.isIntersecting) setActive(e.target.id) })\<close>.\<close>

definition on_entry :: "spy \<Rightarrow> entry \<Rightarrow> spy" where
  "on_entry s e = (if isIntersecting e then s\<lparr>active := el_id (target e)\<rparr> else s)"

definition on_intersect :: "entry list \<Rightarrow> spy \<Rightarrow> spy" where
  "on_intersect es s = foldl on_entry s es"

definition jump :: "string \<Rightarrow> spy \<Rightarrow> spy" where
  "jump i s =
     (case getElementById (document s) i of
        None \<Rightarrow> s
      | Some el \<Rightarrow> s\<lparr>scrolled := scrolled s @ [ScrollIntoView el ''smooth'' ''start'']\<rparr>)"

datatype spy_event = Intersect "entry list" | Jump string

fun spy_step :: "spy \<Rightarrow> spy_event \<Rightarrow> spy" where
  "spy_step s (Intersect es) = on_intersect es s"
| "spy_step s (Jump i) = jump i s"

definition spy_run :: "spy_event list \<Rightarrow> spy \<Rightarrow> spy" where
  "spy_run evs s = foldl spy_step s evs"

text \<open>
  An intersection observer reports only targets it was asked to observe; a batch of
  entries is deliverable to a tracker when each target is one of its observed elements.
\<close>

fun deliverable :: "spy \<Rightarrow> spy_event \<Rightarrow> bool" where
  "deliverable s (Intersect es) = list_all (\<lambda>e. target e \<in> set (observed s)) es"
| "deliverable s (Jump i) = True"

fun enters_band :: "spy_event \<Rightarrow> bool" where
  "enters_band (Intersect es) = list_ex isIntersecting es"
| "enters_band (Jump i) = False"

text \<open>A page with the six landmarks, and one that lacks them.\<close>

definition six_sections :: "dom_element list" where
  "six_sections = [\<lparr>el_ref = 0, el_id = ''home''\<rparr>, \<lparr>el_ref = 1, el_id = ''activities''\<rparr>,
     \<lparr>el_ref = 2, el_id = ''methodology''\<rparr>, \<lparr>el_ref = 3, el_id = ''solutions''\<rparr>,
     \<lparr>el_ref = 4, el_id = ''about''\<rparr>, \<lparr>el_ref = 5, el_id = ''contact''\<rparr>]"

text \<open>Two runs of the tracker: a visit to two sections, and a page too short to scroll.\<close>

definition tour :: "spy_event list" where
  "tour = [Intersect [\<lparr>target = \<lparr>el_ref = 1, el_id = ''activities''\<rparr>, isIntersecting = True\<rparr>,
                      \<lparr>target = \<lparr>el_ref = 0, el_id = ''home''\<rparr>, isIntersecting = False\<rparr>],
           Jump ''contact'',
           Intersect [\<lparr>target = \<lparr>el_ref = 5, el_id = ''contact''\<rparr>, isIntersecting = True\<rparr>]]"

definition short_page :: "spy_event list" where
  "short_page = [Intersect [\<lparr>target = \<lparr>el_ref = 0, el_id = ''home''\<rparr>, isIntersecting = False\<rparr>],
                 Jump ''about'']"

section \<open>Modal\<close>

text \<open>
  The elements the modal deals with, by identity. What \<^verbatim>\<open>Modal\<close> renders while
  open: the overlay with the backdrop and the frame that centres the dialog box (the
  element \<^verbatim>\<open>dialogRef\<close> points to); in the box the header with the title, the close
  button and its icon, and the body that holds the children. \<^verbatim>\<open>Child i\<close> is the
  \<open>i\<close>-th element, in document order, of what the children render; \<^verbatim>\<open>Outside k\<close>
  is an element of the rest of the page, and \<^verbatim>\<open>PageBody\<close> is \<^verbatim>\<open>document.body\<close>.
\<close>

datatype node =
    Overlay | Backdrop | Frame | DialogBox
  | Header | Title | CloseButton | CloseIcon | Body
  | Child nat
  | Outside nat
  | PageBody

record element =
  nd :: node
  tag :: string
  tabindex :: "string option"

text \<open>The children, as the elements they render in document order: tag and \<^verbatim>\<open>tabindex\<close>.\<close>

type_synonym markup = "(string \<times> string option) list"

definition child_elements :: "markup \<Rightarrow> element list" where
  "child_elements cs =
     map (\<lambda>(i, (t, ti)). \<lparr>nd = Child i, tag = t, tabindex = ti\<rparr>) (enumerate 0 cs)"

text \<open>The descendants of the dialog box in document order: the header comes first.\<close>

definition dialog_descendants :: "markup \<Rightarrow> element list" where
  "dialog_descendants cs =
     [\<lparr>nd = Header, tag = ''div'', tabindex = None\<rparr>,
      \<lparr>nd = Title, tag = ''h3'', tabindex = None\<rparr>,
      \<lparr>nd = CloseButton, tag = ''button'', tabindex = None\<rparr>,
      \<lparr>nd = CloseIcon, tag = ''svg'', tabindex = None\<rparr>,
      \<lparr>nd = Body, tag = ''div'', tabindex = None\<rparr>] @ child_elements cs"

definition dialog_nodes :: "markup \<Rightarrow> node list" where
  "dialog_nodes cs = [Overlay, Backdrop, Frame, DialogBox] @ map nd (dialog_descendants cs)"

text \<open>\<^verbatim>\<open>a,button,textarea,input,select,[tabindex]:not([tabindex="-1"])\<close>\<close>

definition selector_matches :: "element \<Rightarrow> bool" where
  "selector_matches e =
     (tag e \<in> set [''a'', ''button'', ''textarea'', ''input'', ''select''] \<or>
      (case tabindex e of None \<Rightarrow> False | Some v \<Rightarrow> v \<noteq> ''-1''))"

definition querySelectorAll :: "element list \<Rightarrow> node list" where
  "querySelectorAll els = map nd (filter selector_matches els)"

text \<open>\<^verbatim>\<open>Array.prototype.indexOf\<close>: the first index of the element, or \<open>-1\<close>.\<close>

fun indexOf :: "'a list \<Rightarrow> 'a \<Rightarrow> int" where
  "indexOf [] a = - 1"
| "indexOf (x # xs) a =
     (if x = a then 0 else (let r = indexOf xs a in if r < 0 then - 1 else r + 1))"

text \<open>What the effect's closure holds: \<^verbatim>\<open>prev\<close> and the node list \<^verbatim>\<open>focusable\<close>
  (\<^verbatim>\<open>undefined\<close> when \<^verbatim>\<open>dialogRef.current\<close> is null).\<close>

record trap =
  prev :: "node option"
  focusable :: "node list option"

record key_event =
  key :: string
  shiftKey :: bool
  defaultPrevented :: bool

text \<open>
  The page as far as the modal is concerned.
  \<^item> \<^verbatim>\<open>fishboneOpen\<close> is the React state passed to \<^verbatim>\<open>Modal\<close> as \<^verbatim>\<open>open\<close>;
    \<^verbatim>\<open>children\<close> is the modal's content.
  \<^item> \<^verbatim>\<open>listener\<close> is the \<^verbatim>\<open>keydown\<close> listener the effect has registered on the
    document, given by the closure it runs in; \<open>None\<close> when none is registered.
  \<^item> \<^verbatim>\<open>activeElement\<close> is \<^verbatim>\<open>document.activeElement\<close>: the focused element, the
    body when no element has the focus, and \<open>None\<close> for \<^verbatim>\<open>null\<close>.
  \<^item> \<^verbatim>\<open>attached\<close> tells which elements are in the document, and \<^verbatim>\<open>acceptsFocus\<close>
    which elements of the content and of the rest of the page the browser lets take
    the focus (an enabled, visible control; not a link without \<^verbatim>\<open>href\<close>, a disabled
    or hidden control, or an element without a valid \<^verbatim>\<open>tabindex\<close>).
  \<^item> \<^verbatim>\<open>tabDefault\<close> is the browser's own answer to a Tab key that no listener has
    prevented: from the shift flag and the focused element, the element focused next.
    It belongs to the browser; the component never sets it.
  \<^item> \<^verbatim>\<open>focusCalls\<close> lists the elements \<^verbatim>\<open>focus()\<close> was called on, oldest first, and
    \<^verbatim>\<open>closeCalls\<close> counts the calls of \<^verbatim>\<open>onClose\<close>.
\<close>

record page =
  fishboneOpen :: bool
  children :: markup
  listener :: "trap option"
  activeElement :: "node option"
  attached :: "node \<Rightarrow> bool"
  acceptsFocus :: "node \<Rightarrow> bool"
  tabDefault :: "bool \<Rightarrow> node option \<Rightarrow> node option"
  focusCalls :: "node list"
  closeCalls :: nat

text \<open>
  Which elements can take the focus. Of what \<^verbatim>\<open>Modal\<close> itself renders, the close
  button can (an enabled \<^verbatim>\<open>button\<close>) and nothing else (\<^verbatim>\<open>div\<close>, \<^verbatim>\<open>h3\<close> and
  \<^verbatim>\<open>svg\<close> without \<^verbatim>\<open>tabindex\<close>); the body of the page cannot; for the other
  elements the page state tells.
\<close>

fun accepts :: "(node \<Rightarrow> bool) \<Rightarrow> node \<Rightarrow> bool" where
  "accepts f CloseButton = True"
| "accepts f (Child i) = f (Child i)"
| "accepts f (Outside k) = f (Outside k)"
| "accepts f n = False"

definition takes_focus :: "page \<Rightarrow> node \<Rightarrow> bool" where
  "takes_focus s n = (attached s n \<and> accepts (acceptsFocus s) n)"

text \<open>
  \<^verbatim>\<open>n.focus()\<close>: the call is recorded; it gives \<open>n\<close> the focus when \<open>n\<close> is in
  the document and can take the focus, and does nothing otherwise.
\<close>

definition focus :: "node \<Rightarrow> page \<Rightarrow> page" where
  "focus n s =
     (let s1 = s\<lparr>focusCalls := focusCalls s @ [n]\<rparr>
      in if takes_focus s n then s1\<lparr>activeElement := Some n\<rparr> else s1)"

text \<open>\<^verbatim>\<open>onClose={()=>setFishboneOpen(false)}\<close>\<close>

definition onClose :: "page \<Rightarrow> page" where
  "onClose s = s\<lparr>fishboneOpen := False, closeCalls := closeCalls s + 1\<rparr>"

text \<open>\<^verbatim>\<open>list.indexOf(document.activeElement)\<close>\<close>

definition activeIndex :: "node list \<Rightarrow> page \<Rightarrow> int" where
  "activeIndex list s = (case activeElement s of None \<Rightarrow> - 1 | Some a \<Rightarrow> indexOf list a)"

text \<open>
  The body of the effect for \<^verbatim>\<open>open = true\<close>, given what \<^verbatim>\<open>dialogRef.current\<close>
  holds (the descendants of the dialog box, or null): remember the focused element,
  query the focusable descendants, focus the first, register the listener.
\<close>

definition Modal_effect :: "element list option \<Rightarrow> page \<Rightarrow> page" where
  "Modal_effect dialogRef s =
     (let p = activeElement s;
          fs = map_option querySelectorAll dialogRef;
          s1 = (case fs of Some (first # rest) \<Rightarrow> focus first s | _ \<Rightarrow> s)
      in s1\<lparr>listener := Some \<lparr>prev = p, focusable = fs\<rparr>\<rparr>)"

text \<open>
  The effect's cleanup: remove the listener, then \<^verbatim>\<open>prev && prev.focus()\<close>. The
  test fails for \<^verbatim>\<open>null\<close> only: when no element had the focus, \<^verbatim>\<open>prev\<close> is the
  body and \<^verbatim>\<open>focus()\<close> is called on it.
\<close>

definition Modal_cleanup :: "trap \<Rightarrow> page \<Rightarrow> page" where
  "Modal_cleanup t s =
     (let s1 = s\<lparr>listener := None\<rparr>
      in case prev t of None \<Rightarrow> s1 | Some p \<Rightarrow> focus p s1)"

text \<open>The listener \<^verbatim>\<open>onKey\<close>; it returns the event, which \<^verbatim>\<open>preventDefault\<close> marks.\<close>

definition onKey :: "trap \<Rightarrow> key_event \<Rightarrow> page \<Rightarrow> key_event \<times> page" where
  "onKey t e s =
     (let s1 = (if key e = ''Escape'' then onClose s else s)
      in if key e = ''Tab'' then
           (case focusable t of
              Some (x # xs) \<Rightarrow>
                (let list = x # xs; idx = activeIndex list s1
                 in if shiftKey e \<and> idx \<le> 0
                    then (e\<lparr>defaultPrevented := True\<rparr>, focus (last list) s1)
                    else if \<not> shiftKey e \<and> idx = int (length list) - 1
                    then (e\<lparr>defaultPrevented := True\<rparr>, focus x s1)
                    else (e, s1))
            | _ \<Rightarrow> (e, s1))
         else (e, s1))"

text \<open>
  Committing the render that follows an event handler. When \<^verbatim>\<open>open\<close> has become
  true the modal's elements enter the document and then the effect runs; when it has
  become false they leave the document (the focus falls back to the body if one of them
  had it) and then the cleanup runs. When the handler has not changed
  \<^verbatim>\<open>fishboneOpen\<close> (a key other than Escape, a second click on the demo button) no
  state has changed and React does not render.
\<close>

definition mount :: "page \<Rightarrow> page" where
  "mount s = s\<lparr>attached := (\<lambda>n. attached s n \<or> n \<in> set (dialog_nodes (children s)))\<rparr>"

definition unmount :: "page \<Rightarrow> page" where
  "unmount s =
     s\<lparr>attached := (\<lambda>n. attached s n \<and> n \<notin> set (dialog_nodes (children s))),
       activeElement :=
         (case activeElement s of
            None \<Rightarrow> None
          | Some a \<Rightarrow>
              if a \<in> set (dialog_nodes (children s)) then Some PageBody else Some a)\<rparr>"

definition commit :: "page \<Rightarrow> page" where
  "commit s =
     (if fishboneOpen s
      then (case listener s of
              None \<Rightarrow> Modal_effect (Some (dialog_descendants (children s))) (mount s)
            | Some t \<Rightarrow> s)
      else (case listener s of
              None \<Rightarrow> s
            | Some t \<Rightarrow> Modal_cleanup t (unmount s)))"

text \<open>
  A render of the page for a reason of its own, with \<^verbatim>\<open>fishboneOpen\<close> as it was: the
  scroll-spy has called \<^verbatim>\<open>setActive\<close> with another section, or the contact form has
  changed its values or errors. The page passes \<^verbatim>\<open>onClose\<close> as a new arrow function
  at every render and the effect depends on \<^verbatim>\<open>[open, onClose]\<close>, so while the modal
  is open the cleanup of the last run and then the effect run again: \<^verbatim>\<open>prev\<close> and
  \<^verbatim>\<open>focusable\<close> are captured anew. While it is closed the last run has returned no
  cleanup and the new run returns at \<^verbatim>\<open>if (!open) return\<close>.
\<close>

definition rerender :: "page \<Rightarrow> page" where
  "rerender s =
     (if fishboneOpen s
      then (case listener s of
              None \<Rightarrow> s
            | Some t \<Rightarrow>
                Modal_effect (Some (dialog_descendants (children s))) (Modal_cleanup t s))
      else s)"

text \<open>
  A \<^verbatim>\<open>keydown\<close> on the document: the registered listener runs, if there is one; a
  Tab that it has not prevented moves the focus the browser's way; then React commits.
\<close>

definition keydown :: "key_event \<Rightarrow> page \<Rightarrow> page" where
  "keydown e s =
     (let (e1, s1) = (case listener s of None \<Rightarrow> (e, s) | Some t \<Rightarrow> onKey t e s);
          s2 = (if key e1 = ''Tab'' \<and> \<not> defaultPrevented e1
                then s1\<lparr>activeElement := tabDefault s1 (shiftKey e1) (activeElement s1)\<rparr>
                else s1)
      in commit s2)"

text \<open>
  What can happen to the page: a click on "Try Live Demo" of the first activity card, on
  the modal's close button or on its backdrop (both exist only while the modal is
  rendered), a key press, a render of the page for a reason of its own, and what else
  runs on the page or in the browser removing an element from the document or making
  it unable to take the focus (the focus falls back to the body if the element had it).
\<close>

datatype modal_event =
    ClickDemo
  | ClickClose
  | ClickBackdrop
  | KeyDown string bool
  | Rerender
  | Detach node
  | Disable node

fun step :: "page \<Rightarrow> modal_event \<Rightarrow> page" where
  "step s ClickDemo = commit (s\<lparr>fishboneOpen := True\<rparr>)"
| "step s ClickClose = (if fishboneOpen s then commit (onClose s) else s)"
| "step s ClickBackdrop = (if fishboneOpen s then commit (onClose s) else s)"
| "step s (KeyDown k sh) = keydown \<lparr>key = k, shiftKey = sh, defaultPrevented = False\<rparr> s"
| "step s Rerender = rerender s"
| "step s (Detach n) =
     s\<lparr>attached := (attached s)(n := False),
       activeElement := (if activeElement s = Some n then Some PageBody else activeElement s)\<rparr>"
| "step s (Disable n) =
     s\<lparr>acceptsFocus := (acceptsFocus s)(n := False),
       activeElement := (if activeElement s = Some n then Some PageBody else activeElement s)\<rparr>"

definition run :: "modal_event list \<Rightarrow> page \<Rightarrow> page" where
  "run evs s = foldl step s evs"

text \<open>The three ways of closing named in the modal's contract.\<close>

fun closes :: "modal_event \<Rightarrow> bool" where
  "closes ClickClose = True"
| "closes ClickBackdrop = True"
| "closes (KeyDown k sh) = (k = ''Escape'')"
| "closes ev = False"

text \<open>An event that neither closes the modal nor takes element \<open>p\<close> away.\<close>

definition keeps :: "node \<Rightarrow> modal_event \<Rightarrow> bool" where
  "keeps p ev = (\<not> closes ev \<and> ev \<noteq> Detach p \<and> ev \<noteq> Disable p)"

text \<open>
  While the modal is open, an element that stays in the document and able to take the
  focus stays the captured \<^verbatim>\<open>prev\<close>: a re-render gives it the focus back in the
  cleanup and captures it again in the effect.
\<close>

definition holds_prev :: "node \<Rightarrow> page \<Rightarrow> bool" where
  "holds_prev p s =
     (fishboneOpen s \<and> map_option prev (listener s) = Some (Some p) \<and> takes_focus s p)"

text \<open>A sequence of Tab presses, each with its shift flag.\<close>

definition press_tabs :: "bool list \<Rightarrow> page \<Rightarrow> page" where
  "press_tabs shs s = run (map (KeyDown ''Tab'') shs) s"

text \<open>
  For concrete pages: the browser's answer to Tab in a document whose tabbable
  elements are, in order, \<open>order\<close>. From the body the focus goes to the first of them
  (the last with shift); past either end it leaves the page, and the body is what
  \<^verbatim>\<open>document.activeElement\<close> then shows.
\<close>

fun after :: "node list \<Rightarrow> node \<Rightarrow> node option" where
  "after [] a = None"
| "after [x] a = None"
| "after (x # y # ys) a = (if x = a then Some y else after (y # ys) a)"

definition tab_in_order :: "node list \<Rightarrow> bool \<Rightarrow> node option \<Rightarrow> node option" where
  "tab_in_order order sh cur =
     (let os = (if sh then rev order else order);
          entry = (case os of [] \<Rightarrow> Some PageBody | x # xs \<Rightarrow> Some x)
      in case cur of
           None \<Rightarrow> entry
         | Some a \<Rightarrow>
             if a = PageBody then entry
             else (case after os a of None \<Rightarrow> Some PageBody | Some b \<Rightarrow> Some b))"

text \<open>
  The page of this repository before the demo is opened: the modal's only child is the
  iframe; the focus is on the button that opens the demo, \<^verbatim>\<open>Outside 0\<close>.
\<close>

definition demo_page :: page where
  "demo_page = \<lparr>fishboneOpen = False, children = [(''iframe'', None)], listener = None,
     activeElement = Some (Outside 0),
     attached = (\<lambda>n. n = Outside 0 \<or> n = PageBody), acceptsFocus = (\<lambda>n. True),
     tabDefault = tab_in_order [Outside 0, CloseButton, Child 0],
     focusCalls = [], closeCalls = 0\<rparr>"

text \<open>A modal whose content is a button, an iframe and another button.\<close>

definition mixed_page :: page where
  "mixed_page = \<lparr>fishboneOpen = False,
     children = [(''button'', None), (''iframe'', None), (''button'', None)], listener = None,
     activeElement = Some (Outside 0),
     attached = (\<lambda>n. n = Outside 0 \<or> n = PageBody), acceptsFocus = (\<lambda>n. True),
     tabDefault = tab_in_order [Outside 0, CloseButton, Child 0, Child 1, Child 2],
     focusCalls = [], closeCalls = 0\<rparr>"

text \<open>A modal whose content is two buttons and nothing else.\<close>

definition buttons_page :: page where
  "buttons_page = \<lparr>fishboneOpen = False,
     children = [(''button'', None), (''button'', None)], listener = None,
     activeElement = Some (Outside 0),
     attached = (\<lambda>n. n = Outside 0 \<or> n = PageBody), acceptsFocus = (\<lambda>n. True),
     tabDefault = tab_in_order [Outside 0, CloseButton, Child 0, Child 1],
     focusCalls = [], closeCalls = 0\<rparr>"

text \<open>The two states of the modal, as the page holds them after a commit.\<close>

definition is_open :: "page \<Rightarrow> bool" where
  "is_open s = (fishboneOpen s \<and> listener s \<noteq> None)"

definition is_closed :: "page \<Rightarrow> bool" where
  "is_closed s = (\<not> fishboneOpen s \<and> listener s = None)"

text \<open>
  The browser's Tab order runs through \<open>list\<close> when Tab leads from each of its
  elements but the last to the next one, and Shift+Tab from each but the first to the
  one before.
\<close>

definition in_tab_order :: "node list \<Rightarrow> (bool \<Rightarrow> node option \<Rightarrow> node option) \<Rightarrow> bool" where
  "in_tab_order list nav =
     list_all (\<lambda>i. nav False (Some (list ! i)) = Some (list ! Suc i) \<and>
                   nav True (Some (list ! Suc i)) = Some (list ! i))
       [0..<length list - 1]"

text \<open>
  An open modal whose listener holds \<open>list\<close>: the list is not empty and without
  repetition (it is a query result), its elements are in the document and can take the
  focus, and the browser's Tab order runs through it.
\<close>

definition trapped :: "node list \<Rightarrow> page \<Rightarrow> bool" where
  "trapped list s =
     (fishboneOpen s \<and> map_option focusable (listener s) = Some (Some list) \<and>
      list \<noteq> [] \<and> distinct list \<and> list_all (takes_focus s) list \<and>
      in_tab_order list (tabDefault s))"

text \<open>
  One press seen as a move on positions \<open>0..n-1\<close>: Tab goes one up and from the
  last position to the first, Shift+Tab one down and from the first to the last.
\<close>

definition turn :: "nat \<Rightarrow> nat \<Rightarrow> bool \<Rightarrow> nat" where
  "turn n i sh =
     (if sh then (if i = 0 then n - 1 else i - 1) else (if Suc i = n then 0 else Suc i))"



definition cycle :: "nat \<Rightarrow> nat \<Rightarrow> bool list \<Rightarrow> nat" where
  "cycle n i shs = foldl (turn n) i shs"

section \<open>Contact form: properties\<close>

lemma validate_passes_iff:
  "fst (validate f) \<longleftrightarrow>
     trim (name (values f)) \<noteq> [] \<and> trim (email (values f)) \<noteq> [] \<and>
     rx_test emailRx (email (values f)) \<and> trim (organization (values f)) \<noteq> [] \<and>
     website (values f) = []"
  by (simp add: validate_def validate_errors_def Let_def)

lemma trim_Nil: "trim [] = []"
  by (simp add: trim_def)

lemma not_an_email: "\<not> rx_test emailRx (js ''not-an-email'')"
  by (simp add: emailRx_def js_def RPlus_def RChar_def not_space_at_def is_ws_def)

lemma good_values_pass:
  "trim (name good_values) \<noteq> []" "trim (email good_values) \<noteq> []"
  "rx_test emailRx (email good_values)" "trim (organization good_values) \<noteq> []"
  by (simp_all add: good_values_def initial_values_def trim_def emailRx_def js_def RPlus_def
      RChar_def not_space_at_def is_ws_def)

text \<open>
  C4, as the claim states it, fails: an organization that is not empty but consists of
  white space only is trimmed to the empty string by \<^verbatim>\<open>validate\<close>, which then
  reports a third error.
\<close>

theorem C4_blank_organization_counterexample:
  "name (values blank_org_form) = [] \<and>
   \<not> rx_test emailRx (email (values blank_org_form)) \<and>
   organization (values blank_org_form) \<noteq> [] \<and>
   website (values blank_org_form) = [] \<and>
   map fst (errors (submit blank_org_form)) = [''name'', ''email'', ''organization'']"
  using not_an_email
  by (simp add: blank_org_form_def initial_form_def initial_values_def submit_def validate_def
      validate_errors_def Let_def trim_def)  (simp add: js_def is_ws_def)

text \<open>
  C4 (amended): submitting with an empty name, an email that does not match the pattern,
  an organization with at least one character that is not white space, and an empty
  honeypot yields exactly the two errors \<^verbatim>\<open>name\<close> and \<^verbatim>\<open>email\<close>, in that
  order; the only call made is \<^verbatim>\<open>preventDefault\<close> (no acknowledgment, no log), and
  the field values stay as they were.
\<close>

theorem C4_two_field_errors:
  assumes "name (values f) = []"
    and "\<not> rx_test emailRx (email (values f))"
    and "trim (organization (values f)) \<noteq> []"
    and "website (values f) = []"
  shows "errors (submit f) =
           [(''name'', ''Please enter your name.''), (''email'', ''Enter a valid email.'')] \<and>
         effects (submit f) = effects f @ [PreventDefault] \<and>
         values (submit f) = values f"
  using assms
  by (simp add: submit_def validate_def validate_errors_def Let_def trim_Nil)

theorem C4_two_field_errors_witness:
  "errors (submit bad_email_form) =
     [(''name'', ''Please enter your name.''), (''email'', ''Enter a valid email.'')] \<and>
   effects (submit bad_email_form) = [PreventDefault] \<and>
   values (submit bad_email_form) = values bad_email_form"
proof -
  have 1: "name (values bad_email_form) = []"
    by (simp add: bad_email_form_def initial_form_def initial_values_def)
  have 2: "\<not> rx_test emailRx (email (values bad_email_form))"
    using not_an_email by (simp add: bad_email_form_def initial_form_def initial_values_def)
  have 3: "trim (organization (values bad_email_form)) \<noteq> []"
    by (simp add: bad_email_form_def initial_form_def initial_values_def trim_def js_def
        is_ws_def)
  have 4: "website (values bad_email_form) = []"
    by (simp add: bad_email_form_def initial_form_def initial_values_def)
  have 5: "effects bad_email_form = []"
    by (simp add: bad_email_form_def initial_form_def)
  show ?thesis
    using C4_two_field_errors [OF 1 2 3 4] 5 by simp
qed

text \<open>
  C5: whatever the other fields hold, a submission whose honeypot field \<^verbatim>\<open>website\<close>
  is not empty fails validation, reports the \<^verbatim>\<open>website\<close> error, and makes no call
  but \<^verbatim>\<open>preventDefault\<close>: the acknowledgment and the log are not reached.
\<close>

theorem C5_honeypot_blocks:
  assumes "website (values f) \<noteq> []"
  shows "\<not> fst (validate f) \<and>
         (''website'', ''Spam detected.'') \<in> set (errors (submit f)) \<and>
         effects (submit f) = effects f @ [PreventDefault] \<and>
         values (submit f) = values f"
  using assms
  by (simp add: submit_def validate_def validate_errors_def Let_def)

theorem C5_honeypot_blocks_witness:
  "trim (name (values spam_form)) \<noteq> [] \<and> trim (email (values spam_form)) \<noteq> [] \<and>
   rx_test emailRx (email (values spam_form)) \<and>
   trim (organization (values spam_form)) \<noteq> [] \<and>
   \<not> fst (validate spam_form) \<and>
   errors (submit spam_form) = [(''website'', ''Spam detected.'')] \<and>
   effects (submit spam_form) = [PreventDefault]"
proof -
  have v: "values spam_form = good_values\<lparr>website := js ''x''\<rparr>"
    and e: "effects spam_form = []"
    by (simp_all add: spam_form_def initial_form_def)
  have w: "website (values spam_form) \<noteq> []"
    by (simp add: v js_def)
  have errs: "errors (submit spam_form) = [(''website'', ''Spam detected.'')]"
    using good_values_pass w
    by (simp add: submit_def validate_def validate_errors_def Let_def v)
  show ?thesis
    using C5_honeypot_blocks [OF w] good_values_pass errs by (simp add: v e)
qed

text \<open>
  C10: a submission that passes validation makes the acknowledgment call (and the log)
  after \<^verbatim>\<open>preventDefault\<close>, leaves every field value as it was, and stores the
  empty error object, whatever errors an earlier submission had left there.
\<close>

theorem C10_valid_submit_keeps_values:
  assumes "fst (validate f)"
  shows "submit f = f\<lparr>errors := [],
           effects := effects f @ [PreventDefault, Alert thanks, ConsoleLog ''Form:'' (values f)]\<rparr>"
  using assms
  by (simp add: submit_def validate_def Let_def)

theorem C10_valid_submit_keeps_values_witness:
  "errors retry_form \<noteq> [] \<and>
   submit retry_form = \<lparr>values = good_values, errors = [],
     effects = [PreventDefault, PreventDefault, Alert thanks, ConsoleLog ''Form:'' good_values]\<rparr>"
proof -
  have v: "values retry_form = good_values"
    by (simp add: retry_form_def)
  have w: "website good_values = []"
    by (simp add: good_values_def initial_values_def)
  have ok: "fst (validate retry_form)"
    using good_values_pass w by (simp add: validate_passes_iff v)
  show ?thesis
    using C10_valid_submit_keeps_values [OF ok] by (simp add: retry_form_def)
qed

section \<open>Scroll-spy tracker and section navigator: properties\<close>

lemma getElementById_id: "getElementById doc i = Some e \<Longrightarrow> el_id e = i"
  by (auto simp: getElementById_def find_Some_iff)

lemma observed_declared:
  assumes "e \<in> set (observed (mounted doc))"
  shows "el_id e \<in> set sections"
proof -
  from assms obtain i where "i \<in> set sections" "getElementById doc i = Some e"
    by (auto simp: mounted_def List.map_filter_def)
  then show ?thesis
    using getElementById_id by blast
qed

lemma on_entry_frame:
  "observed (on_entry s e) = observed s" "document (on_entry s e) = document s"
  "scrolled (on_entry s e) = scrolled s"
  by (simp_all add: on_entry_def)

lemma on_intersect_frame:
  "observed (on_intersect es s) = observed s \<and> document (on_intersect es s) = document s \<and>
   scrolled (on_intersect es s) = scrolled s"
  unfolding on_intersect_def
  by (induction es arbitrary: s) (simp_all add: on_entry_frame)

lemma jump_frame:
  "observed (jump i s) = observed s" "document (jump i s) = document s"
  "active (jump i s) = active s"
  by (simp_all add: jump_def split: option.splits)

lemma spy_step_observed: "observed (spy_step s ev) = observed s"
  by (cases ev) (simp_all add: on_intersect_frame jump_frame)

lemma on_intersect_active:
  assumes "list_all (\<lambda>e. el_id (target e) \<in> A) es" and "active s \<in> A"
  shows "active (on_intersect es s) \<in> A"
  using assms unfolding on_intersect_def
  by (induction es arbitrary: s) (simp_all add: on_entry_def)

lemma on_intersect_idle:
  assumes "\<not> list_ex isIntersecting es"
  shows "on_intersect es s = s"
  using assms unfolding on_intersect_def
  by (induction es arbitrary: s) (simp_all add: on_entry_def)

lemma spy_step_active:
  assumes "deliverable s ev" and "active s \<in> set sections"
    and "\<And>e. e \<in> set (observed s) \<Longrightarrow> el_id e \<in> set sections"
  shows "active (spy_step s ev) \<in> set sections"
proof (cases ev)
  case (Intersect es)
  with assms(1,3) have "list_all (\<lambda>e. el_id (target e) \<in> set sections) es"
    by (auto simp: list_all_iff)
  with assms(2) Intersect show ?thesis
    by (simp add: on_intersect_active)
next
  case (Jump i)
  with assms(2) show ?thesis
    by (simp add: jump_frame)
qed

lemma spy_run_active:
  assumes "list_all (deliverable s) evs" and "active s \<in> set sections"
    and "\<And>e. e \<in> set (observed s) \<Longrightarrow> el_id e \<in> set sections"
  shows "active (spy_run evs s) \<in> set sections"
  using assms unfolding spy_run_def
proof (induction evs arbitrary: s)
  case Nil
  then show ?case by simp
next
  case (Cons ev evs)
  have same: "observed (spy_step s ev) = observed s"
    by (rule spy_step_observed)
  have "deliverable (spy_step s ev) x = deliverable s x" for x
    by (cases x) (simp_all add: same)
  then have "deliverable (spy_step s ev) = deliverable s"
    by (rule ext)
  with Cons.prems(1) have d: "list_all (deliverable (spy_step s ev)) evs"
    by simp
  have a: "active (spy_step s ev) \<in> set sections"
    using Cons.prems by (intro spy_step_active) simp_all
  have o: "el_id e \<in> set sections" if "e \<in> set (observed (spy_step s ev))" for e
    using that Cons.prems(3) by (simp add: same)
  show ?case
    using Cons.IH [OF d a o] by simp
qed

lemma spy_run_idle:
  assumes "\<not> list_ex enters_band evs"
  shows "active (spy_run evs s) = active s"
  using assms unfolding spy_run_def
proof (induction evs arbitrary: s)
  case Nil
  then show ?case by simp
next
  case (Cons ev evs)
  then have "active (spy_step s ev) = active s"
    by (cases ev) (simp_all add: on_intersect_idle jump_frame)
  with Cons show ?case by simp
qed

lemma observed_six: "observed (mounted six_sections) = six_sections"
  by (simp add: mounted_def six_sections_def sections_def getElementById_def)

text \<open>
  C6: \<^verbatim>\<open>active\<close> starts as \<^verbatim>\<open>"home"\<close>; after any sequence of observer
  callbacks (interleaved with any calls of \<^verbatim>\<open>jump\<close>) whose entries are about
  observed targets, it is one of the six declared section ids; and when no entry of the
  sequence is intersecting, it is still \<^verbatim>\<open>"home"\<close>.
\<close>

theorem C6_active_declared:
  assumes "list_all (deliverable (mounted doc)) evs"
  shows "active (mounted doc) = ''home'' \<and>
         active (spy_run evs (mounted doc)) \<in> set sections \<and>
         (\<not> list_ex enters_band evs \<longrightarrow> active (spy_run evs (mounted doc)) = ''home'')"
proof -
  have h: "active (mounted doc) = ''home''"
    by (simp add: mounted_def)
  then have "active (mounted doc) \<in> set sections"
    by (simp add: sections_def)
  with assms have "active (spy_run evs (mounted doc)) \<in> set sections"
    by (intro spy_run_active observed_declared)
  with h show ?thesis
    by (simp add: spy_run_idle)
qed

theorem C6_active_declared_witness:
  "active (spy_run tour (mounted six_sections)) = ''contact'' \<and>
   active (spy_run tour (mounted six_sections)) \<in> set sections \<and>
   active (spy_run short_page (mounted six_sections)) = ''home''"
proof -
  have d1: "list_all (deliverable (mounted six_sections)) tour"
    by (simp add: tour_def observed_six) (simp add: six_sections_def)
  have d2: "list_all (deliverable (mounted six_sections)) short_page"
    by (simp add: short_page_def observed_six) (simp add: six_sections_def)
  have idle: "\<not> list_ex enters_band short_page"
    by (simp add: short_page_def)
  have c: "active (spy_run tour (mounted six_sections)) = ''contact''"
    by (simp add: spy_run_def tour_def on_intersect_def on_entry_def jump_frame)
  show ?thesis
    using C6_active_declared [OF d1] C6_active_declared [OF d2] idle c by simp
qed

text \<open>
  C8: \<^verbatim>\<open>jump\<close> never changes \<^verbatim>\<open>active\<close>; for an id that no element carries
  it changes nothing at all (there is no error branch), and otherwise all it does is add
  one request to scroll that element into view, smoothly, aligned to its top edge.
\<close>

theorem C8_jump_only_scrolls:
  "active (jump i s) = active s \<and>
   (getElementById (document s) i = None \<longrightarrow> jump i s = s) \<and>
   (\<forall>el. getElementById (document s) i = Some el \<longrightarrow>
      jump i s = s\<lparr>scrolled := scrolled s @ [ScrollIntoView el ''smooth'' ''start'']\<rparr>)"
  by (simp add: jump_def split: option.splits)

theorem C8_jump_only_scrolls_witness:
  "jump ''pricing'' (mounted six_sections) = mounted six_sections \<and>
   jump ''contact'' (mounted six_sections) =
     (mounted six_sections)\<lparr>scrolled :=
        [ScrollIntoView \<lparr>el_ref = 5, el_id = ''contact''\<rparr> ''smooth'' ''start'']\<rparr> \<and>
   active (jump ''contact'' (mounted six_sections)) = ''home''"
proof -
  have doc: "document (mounted six_sections) = six_sections"
    and sc: "scrolled (mounted six_sections) = []"
    and ac: "active (mounted six_sections) = ''home''"
    by (simp_all add: mounted_def)
  have n: "getElementById six_sections ''pricing'' = None"
    by (simp add: getElementById_def six_sections_def)
  have c: "getElementById six_sections ''contact'' = Some \<lparr>el_ref = 5, el_id = ''contact''\<rparr>"
    by (simp add: getElementById_def six_sections_def)
  show ?thesis
    using C8_jump_only_scrolls [of "''pricing''" "mounted six_sections"]
      C8_jump_only_scrolls [of "''contact''" "mounted six_sections"]
    by (simp add: doc sc ac n c)
qed

section \<open>Modal: properties\<close>

lemma query_dialog:
  "querySelectorAll (dialog_descendants cs) = CloseButton # querySelectorAll (child_elements cs)"
  by (simp add: querySelectorAll_def dialog_descendants_def selector_matches_def)

lemma accepts_upd: "n \<noteq> p \<Longrightarrow> accepts (f(n := False)) p = accepts f p"
  by (cases p) auto

lemma focus_frame:
  "fishboneOpen (focus n s) = fishboneOpen s" "listener (focus n s) = listener s"
  "attached (focus n s) = attached s" "tabDefault (focus n s) = tabDefault s"
  "closeCalls (focus n s) = closeCalls s" "children (focus n s) = children s"
  "acceptsFocus (focus n s) = acceptsFocus s"
  "focusCalls (focus n s) = focusCalls s @ [n]"
  "activeElement (focus n s) = (if takes_focus s n then Some n else activeElement s)"
  "takes_focus (focus n s) = takes_focus s"
  by (simp_all add: focus_def Let_def takes_focus_def fun_eq_iff)

lemma takes_focus_frame:
  "takes_focus (s\<lparr>activeElement := a\<rparr>) = takes_focus s"
  "takes_focus (s\<lparr>fishboneOpen := b\<rparr>) = takes_focus s"
  "takes_focus (s\<lparr>listener := l\<rparr>) = takes_focus s"
  by (simp_all add: takes_focus_def fun_eq_iff)

lemma step_open:
  assumes "is_closed s"
  shows "step s ClickDemo =
    (focus CloseButton (mount (s\<lparr>fishboneOpen := True\<rparr>)))
      \<lparr>listener := Some \<lparr>prev = activeElement s,
          focusable = Some (CloseButton # querySelectorAll (child_elements (children s)))\<rparr>\<rparr>"
  using assms
  by (simp add: is_closed_def commit_def Modal_effect_def query_dialog Let_def mount_def)

lemma step_close:
  assumes "fishboneOpen s" and "listener s = Some t" and "closes ev"
  shows "step s ev = Modal_cleanup t (unmount (onClose s))"
proof (cases ev)
  case (KeyDown k sh)
  with assms(3) have k: "k = ''Escape''" by simp
  show ?thesis
    using assms(1,2)
    by (simp add: KeyDown k keydown_def onKey_def commit_def onClose_def unmount_def Let_def)
qed (use assms in \<open>simp_all add: commit_def onClose_def unmount_def\<close>)

lemma escape_closed:
  assumes "is_closed s"
  shows "step s (KeyDown ''Escape'' sh) = s"
  using assms by (simp add: is_closed_def keydown_def commit_def)

lemma cleanup_frame:
  "listener (Modal_cleanup t s) = None" "fishboneOpen (Modal_cleanup t s) = fishboneOpen s"
  "closeCalls (Modal_cleanup t s) = closeCalls s"
  by (simp_all add: Modal_cleanup_def Let_def focus_frame split: option.splits)

text \<open>
  C7: Escape pressed while the modal is open closes it, with exactly one call of
  \<^verbatim>\<open>onClose\<close>; Escape pressed again leaves the page as it is, and so does Escape
  pressed on any page whose modal is closed: no state changes, \<^verbatim>\<open>onClose\<close> is not
  called (the count of its calls is part of the state).
\<close>

theorem C7_escape_closes_once:
  assumes "is_open s" and "is_closed c"
  shows "is_closed (step s (KeyDown ''Escape'' sh)) \<and>
         closeCalls (step s (KeyDown ''Escape'' sh)) = closeCalls s + 1 \<and>
         step (step s (KeyDown ''Escape'' sh)) (KeyDown ''Escape'' sh') =
           step s (KeyDown ''Escape'' sh) \<and>
         step c (KeyDown ''Escape'' sh) = c"
proof -
  from assms(1) obtain t where o: "fishboneOpen s" "listener s = Some t"
    by (auto simp: is_open_def)
  have st: "step s (KeyDown ''Escape'' sh) = Modal_cleanup t (unmount (onClose s))"
    using o by (intro step_close) simp_all
  have cl: "is_closed (step s (KeyDown ''Escape'' sh))"
    unfolding st by (simp add: is_closed_def cleanup_frame unmount_def onClose_def)
  have n: "closeCalls (step s (KeyDown ''Escape'' sh)) = closeCalls s + 1"
    unfolding st by (simp add: cleanup_frame unmount_def onClose_def)
  show ?thesis
    using cl n escape_closed [OF cl] escape_closed [OF assms(2)] by (simp del: step.simps)
qed

lemma demo_closed: "is_closed demo_page"
  by (simp add: is_closed_def demo_page_def)

lemma mount_frame:
  "fishboneOpen (mount s) = fishboneOpen s" "listener (mount s) = listener s"
  "activeElement (mount s) = activeElement s" "tabDefault (mount s) = tabDefault s"
  "closeCalls (mount s) = closeCalls s" "children (mount s) = children s"
  "focusCalls (mount s) = focusCalls s" "acceptsFocus (mount s) = acceptsFocus s"
  "attached (mount s) n = (attached s n \<or> n \<in> set (dialog_nodes (children s)))"
  by (simp_all add: mount_def)

lemma unmount_frame:
  "fishboneOpen (unmount s) = fishboneOpen s" "listener (unmount s) = listener s"
  "tabDefault (unmount s) = tabDefault s"
  "closeCalls (unmount s) = closeCalls s" "children (unmount s) = children s"
  "focusCalls (unmount s) = focusCalls s" "acceptsFocus (unmount s) = acceptsFocus s"
  "attached (unmount s) n = (attached s n \<and> n \<notin> set (dialog_nodes (children s)))"
  by (simp_all add: unmount_def)

lemma close_button_in_dialog: "CloseButton \<in> set (dialog_nodes cs)"
  by (simp add: dialog_nodes_def dialog_descendants_def)

lemma open_result:
  assumes "is_closed s"
  shows "activeElement (step s ClickDemo) = Some CloseButton"
    and "focusCalls (step s ClickDemo) = focusCalls s @ [CloseButton]"
    and "listener (step s ClickDemo) = Some \<lparr>prev = activeElement s,
           focusable = Some (CloseButton # querySelectorAll (child_elements (children s)))\<rparr>"
    and "fishboneOpen (step s ClickDemo)"
    and "closeCalls (step s ClickDemo) = closeCalls s"
    and "tabDefault (step s ClickDemo) = tabDefault s"
    and "children (step s ClickDemo) = children s"
    and "attached (step s ClickDemo) n = (attached s n \<or> n \<in> set (dialog_nodes (children s)))"
    and "acceptsFocus (step s ClickDemo) = acceptsFocus s"
  unfolding step_open [OF assms]
  by (simp_all add: focus_frame mount_frame close_button_in_dialog takes_focus_def)

lemma Modal_effect_no_match:
  assumes "dialogRef = None \<or> querySelectorAll (the dialogRef) = []"
  shows "Modal_effect dialogRef s =
           s\<lparr>listener := Some \<lparr>prev = activeElement s,
                focusable = map_option querySelectorAll dialogRef\<rparr>\<rparr>"
  using assms by (cases dialogRef) (auto simp: Modal_effect_def Let_def)

theorem C7_escape_closes_once_witness:
  "is_open (step demo_page ClickDemo) \<and> is_closed demo_page \<and>
   is_closed (step (step demo_page ClickDemo) (KeyDown ''Escape'' False)) \<and>
   closeCalls (step (step demo_page ClickDemo) (KeyDown ''Escape'' False)) = 1 \<and>
   step (step (step demo_page ClickDemo) (KeyDown ''Escape'' False)) (KeyDown ''Escape'' False) =
     step (step demo_page ClickDemo) (KeyDown ''Escape'' False) \<and>
   step demo_page (KeyDown ''Escape'' False) = demo_page"
proof -
  have o: "is_open (step demo_page ClickDemo)"
    by (simp add: is_open_def open_result [OF demo_closed] del: step.simps)
  have n: "closeCalls (step demo_page ClickDemo) = 0"
    by (simp add: open_result [OF demo_closed] del: step.simps) (simp add: demo_page_def)
  show ?thesis
    using C7_escape_closes_once [OF o demo_closed, of False False] o demo_closed n
    by (simp del: step.simps)
qed

text \<open>
  C2, as the claim states it, fails. The modal of this repository has an iframe as its
  only content, which the selector does not match: the content region has no focusable
  descendant. Opening it focuses the close button of the header, which is the first
  match of the query on the dialog box; \<^verbatim>\<open>focus()\<close> is never called on the box.
\<close>

theorem C2_container_not_focused_counterexample:
  "is_closed demo_page \<and> querySelectorAll (child_elements (children demo_page)) = [] \<and>
   activeElement (step demo_page ClickDemo) = Some CloseButton \<and>
   activeElement (step demo_page ClickDemo) \<noteq> Some DialogBox \<and>
   DialogBox \<notin> set (focusCalls (step demo_page ClickDemo))"
proof -
  have q: "querySelectorAll (child_elements (children demo_page)) = []"
    by (simp add: demo_page_def child_elements_def querySelectorAll_def selector_matches_def
        enumerate_eq_zip)
  have f: "focusCalls demo_page = []"
    by (simp add: demo_page_def)
  show ?thesis
    using demo_closed q f by (simp add: open_result [OF demo_closed] del: step.simps)
qed

text \<open>
  C2 (amended): whenever the modal is opened and its content has no element that the
  selector matches, the query on the dialog box finds the close button of the header
  and nothing else, and the focus is moved onto that button; it is the only element
  \<^verbatim>\<open>focus()\<close> is called on, so the container itself does not get the focus.
\<close>

theorem C2_open_focuses_close_button:
  assumes "is_closed s" and "querySelectorAll (child_elements (children s)) = []"
  shows "activeElement (step s ClickDemo) = Some CloseButton \<and>
         focusCalls (step s ClickDemo) = focusCalls s @ [CloseButton] \<and>
         map_option focusable (listener (step s ClickDemo)) = Some (Some [CloseButton]) \<and>
         is_open (step s ClickDemo)"
  using assms(2)
  by (simp add: open_result [OF assms(1)] is_open_def del: step.simps)

theorem C2_open_focuses_close_button_witness:
  "activeElement (step demo_page ClickDemo) = Some CloseButton \<and>
   focusCalls (step demo_page ClickDemo) = [CloseButton] \<and>
   map_option focusable (listener (step demo_page ClickDemo)) = Some (Some [CloseButton]) \<and>
   is_open (step demo_page ClickDemo)"
proof -
  have q: "querySelectorAll (child_elements (children demo_page)) = []"
    by (simp add: demo_page_def child_elements_def querySelectorAll_def selector_matches_def
        enumerate_eq_zip)
  have f: "focusCalls demo_page = []"
    by (simp add: demo_page_def)
  show ?thesis
    using C2_open_focuses_close_button [OF demo_closed q] f by (simp del: step.simps)
qed

lemma onKey_frame:
  assumes "key e \<noteq> ''Escape''"
  shows "fishboneOpen (snd (onKey t e s)) = fishboneOpen s"
    and "listener (snd (onKey t e s)) = listener s"
    and "attached (snd (onKey t e s)) = attached s"
    and "acceptsFocus (snd (onKey t e s)) = acceptsFocus s"
    and "children (snd (onKey t e s)) = children s"
    and "tabDefault (snd (onKey t e s)) = tabDefault s"
    and "key (fst (onKey t e s)) = key e"
    and "shiftKey (fst (onKey t e s)) = shiftKey e"
  using assms
  by (simp_all add: onKey_def Let_def focus_frame split: option.splits list.splits)

lemma cleanup_focus_frame:
  "attached (Modal_cleanup t s) = attached s" "acceptsFocus (Modal_cleanup t s) = acceptsFocus s"
  "children (Modal_cleanup t s) = children s" "tabDefault (Modal_cleanup t s) = tabDefault s"
  "focusCalls (Modal_cleanup t s) = focusCalls s @ (case prev t of None \<Rightarrow> [] | Some p \<Rightarrow> [p])"
  "activeElement (Modal_cleanup t s) =
     (case prev t of None \<Rightarrow> activeElement s
      | Some p \<Rightarrow> if takes_focus s p then Some p else activeElement s)"
  by (simp_all add: Modal_cleanup_def Let_def focus_frame takes_focus_frame split: option.splits)

lemma effect_frame:
  "fishboneOpen (Modal_effect d s) = fishboneOpen s" "attached (Modal_effect d s) = attached s"
  "acceptsFocus (Modal_effect d s) = acceptsFocus s" "children (Modal_effect d s) = children s"
  "tabDefault (Modal_effect d s) = tabDefault s" "closeCalls (Modal_effect d s) = closeCalls s"
  "listener (Modal_effect d s) =
     Some \<lparr>prev = activeElement s, focusable = map_option querySelectorAll d\<rparr>"
  by (simp_all add: Modal_effect_def Let_def focus_frame split: option.splits list.splits)

lemma rerender_open:
  assumes "fishboneOpen s" and "listener s = Some t"
  shows "fishboneOpen (rerender s)" and "attached (rerender s) = attached s"
    and "acceptsFocus (rerender s) = acceptsFocus s" and "children (rerender s) = children s"
    and "listener (rerender s) =
      Some \<lparr>prev = activeElement (Modal_cleanup t s),
        focusable = Some (CloseButton # querySelectorAll (child_elements (children s)))\<rparr>"
  using assms
  by (simp_all add: rerender_def effect_frame cleanup_frame cleanup_focus_frame query_dialog)

lemma keydown_frame:
  assumes "fishboneOpen s" and "listener s = Some t" and "k \<noteq> ''Escape''"
  shows "fishboneOpen (step s (KeyDown k sh))" and "listener (step s (KeyDown k sh)) = Some t"
    and "attached (step s (KeyDown k sh)) = attached s"
    and "acceptsFocus (step s (KeyDown k sh)) = acceptsFocus s"
    and "children (step s (KeyDown k sh)) = children s"
proof -
  define e where "e = \<lparr>key = k, shiftKey = sh, defaultPrevented = False\<rparr>"
  have ke: "key e \<noteq> ''Escape''" by (simp add: e_def assms(3))
  obtain e1 s1 where r: "onKey t e s = (e1, s1)" by (cases "onKey t e s")
  have s1: "fishboneOpen s1" "listener s1 = Some t" "attached s1 = attached s"
    "acceptsFocus s1 = acceptsFocus s" "children s1 = children s"
    using onKey_frame(1-5) [OF ke, of t s] assms(1,2) by (simp_all add: r)
  have st: "step s (KeyDown k sh) =
      (if key e1 = ''Tab'' \<and> \<not> defaultPrevented e1
       then s1\<lparr>activeElement := tabDefault s1 (shiftKey e1) (activeElement s1)\<rparr> else s1)"
    using assms(2) s1(1,2) by (simp add: keydown_def e_def [symmetric] r commit_def)
  show "fishboneOpen (step s (KeyDown k sh))" and "listener (step s (KeyDown k sh)) = Some t"
    and "attached (step s (KeyDown k sh)) = attached s"
    and "acceptsFocus (step s (KeyDown k sh)) = acceptsFocus s"
    and "children (step s (KeyDown k sh)) = children s"
    unfolding st using s1 by simp_all
qed

lemma step_stays_open:
  assumes "fishboneOpen s" and "listener s = Some t" and "\<not> closes ev"
  shows "fishboneOpen (step s ev) \<and> listener (step s ev) \<noteq> None"
proof (cases ev)
  case ClickDemo
  with assms show ?thesis by (simp add: commit_def)
next
  case (KeyDown k sh)
  with assms(3) have "k \<noteq> ''Escape''" by simp
  from keydown_frame(1,2) [OF assms(1,2) this] show ?thesis
    by (simp add: KeyDown del: step.simps)
next
  case Rerender
  with rerender_open(1,5) [OF assms(1,2)] show ?thesis by simp
qed (use assms in simp_all)

lemma step_holds_prev:
  assumes "holds_prev p s" and "keeps p ev"
  shows "holds_prev p (step s ev) \<and> children (step s ev) = children s"
proof -
  from assms(1) obtain t where o: "fishboneOpen s" "listener s = Some t" "prev t = Some p"
    and f: "takes_focus s p"
    by (auto simp: holds_prev_def)
  show ?thesis
  proof (cases ev)
    case ClickDemo
    with o f show ?thesis
      by (simp add: commit_def holds_prev_def takes_focus_frame)
  next
    case (KeyDown k sh)
    with assms(2) have "k \<noteq> ''Escape''" by (simp add: keeps_def)
    from keydown_frame [OF o(1,2) this, of sh] o(3) f show ?thesis
      by (simp add: KeyDown holds_prev_def takes_focus_def del: step.simps)
  next
    case Rerender
    have "activeElement (Modal_cleanup t s) = Some p"
      using o(3) f by (simp add: cleanup_focus_frame)
    with rerender_open [OF o(1,2)] f show ?thesis
      by (simp add: Rerender holds_prev_def takes_focus_def)
  next
    case (Detach n)
    with assms(2) have "n \<noteq> p" by (auto simp: keeps_def)
    with o f show ?thesis
      by (simp add: Detach holds_prev_def takes_focus_def)
  next
    case (Disable n)
    with assms(2) have n: "n \<noteq> p" by (auto simp: keeps_def)
    with o f show ?thesis
      by (simp add: Disable holds_prev_def takes_focus_def accepts_upd)
  qed (use assms(2) in \<open>simp_all add: keeps_def\<close>)
qed

lemma run_holds_prev:
  assumes "holds_prev p s" and "list_all (keeps p) evs"
  shows "holds_prev p (run evs s) \<and> children (run evs s) = children s"
  using assms unfolding run_def
proof (induction evs arbitrary: s)
  case Nil
  then show ?case by simp
next
  case (Cons ev evs)
  then have "holds_prev p (step s ev) \<and> children (step s ev) = children s"
    by (intro step_holds_prev) simp_all
  with Cons show ?case by simp
qed

lemma close_result:
  assumes "fishboneOpen s" and "listener s = Some t" and "prev t = Some p" and "closes ev"
  shows "focusCalls (step s ev) = focusCalls s @ [p]"
    and "is_closed (step s ev)"
    and "activeElement (step s ev) =
           (if takes_focus (unmount s) p then Some p else activeElement (unmount s))"
    and "closeCalls (step s ev) = closeCalls s + 1"
proof -
  have u: "takes_focus (unmount (onClose s)) = takes_focus (unmount s)"
    "activeElement (unmount (onClose s)) = activeElement (unmount s)"
    by (simp_all add: fun_eq_iff takes_focus_def unmount_def onClose_def
        cong: option.case_cong)
  show "focusCalls (step s ev) = focusCalls s @ [p]" and "is_closed (step s ev)"
    and "activeElement (step s ev) =
           (if takes_focus (unmount s) p then Some p else activeElement (unmount s))"
    and "closeCalls (step s ev) = closeCalls s + 1"
    unfolding step_close [OF assms(1,2,4)]
    using assms(3)
    by (simp_all add: cleanup_focus_frame cleanup_frame is_closed_def unmount_frame u)
      (simp_all add: onClose_def)
qed

text \<open>
  C1 (amended). Every close (the close button, the backdrop, Escape) calls
  \<^verbatim>\<open>focus()\<close> once, on the element \<open>q\<close> that the last run of the effect has captured
  as \<^verbatim>\<open>prev\<close>, and without looking whether \<open>q\<close> is still in the document: the focus
  goes to \<open>q\<close> if \<open>q\<close> is in the document and can take the focus, and stays where the
  removal of the modal has left it otherwise. When the modal was opened while an
  element \<open>p\<close> of the page had the focus, and \<open>p\<close> has stayed in the document and able
  to take the focus through all that happened since (key presses, re-renders of the
  page, changes to other elements), the captured element is \<open>p\<close> and closing restores
  the focus to \<open>p\<close>.
\<close>

theorem C1_close_restores_focus:
  assumes "is_closed s0" and "activeElement s0 = Some p" and "takes_focus s0 p"
    and "p \<notin> set (dialog_nodes (children s0))"
    and "list_all (keeps p) evs" and "s = run evs (step s0 ClickDemo)"
    and "closes ev"
    and "fishboneOpen u" and "listener u = Some t" and "prev t = Some q"
  shows "map_option prev (listener s) = Some (Some p) \<and>
         focusCalls (step s ev) = focusCalls s @ [p] \<and>
         activeElement (step s ev) = Some p \<and>
         is_closed (step s ev) \<and>
         focusCalls (step u ev) = focusCalls u @ [q] \<and>
         activeElement (step u ev) =
           (if takes_focus (unmount u) q then Some q else activeElement (unmount u)) \<and>
         is_closed (step u ev)"
proof -
  have "takes_focus (step s0 ClickDemo) p"
    using assms(3) open_result(8,9) [OF assms(1)]
    by (simp add: takes_focus_def del: step.simps)
  then have "holds_prev p (step s0 ClickDemo)"
    using open_result(3,4) [OF assms(1)] assms(2) by (simp add: holds_prev_def del: step.simps)
  from run_holds_prev [OF this assms(5)]
  have h: "holds_prev p s" and c: "children s = children s0"
    by (simp_all add: assms(6) open_result(7) [OF assms(1)] del: step.simps)
  from h obtain t' where o: "fishboneOpen s" "listener s = Some t'" "prev t' = Some p"
    and f: "takes_focus s p"
    by (auto simp: holds_prev_def)
  have "takes_focus (unmount s) p"
    using f assms(4) c by (simp add: takes_focus_def unmount_frame)
  then show ?thesis
    using close_result(1-3) [OF o assms(7)] close_result(1-3) [OF assms(8-10) assms(7)] o(2,3)
    by (simp del: step.simps)
qed

text \<open>The definitions to unfold when a concrete page is run.\<close>

lemmas modal_eval = run_def keydown_def onKey_def commit_def rerender_def Modal_effect_def
  Modal_cleanup_def focus_def takes_focus_def onClose_def mount_def unmount_def activeIndex_def
  dialog_nodes_def dialog_descendants_def child_elements_def querySelectorAll_def
  selector_matches_def tab_in_order_def Let_def enumerate_eq_zip press_tabs_def

text \<open>
  C1, as the claim states it, fails in its last part: when the element focused before
  the modal was opened has left the document, closing the modal still calls
  \<^verbatim>\<open>focus()\<close> on it. A re-render of the page while the modal is open does the same,
  and then captures the close button, on which the closing cleanup calls
  \<^verbatim>\<open>focus()\<close> in turn.
\<close>

theorem C1_restore_attempt_counterexample:
  "activeElement demo_page = Some (Outside 0) \<and>
   \<not> attached (run [ClickDemo, Detach (Outside 0)] demo_page) (Outside 0) \<and>
   focusCalls (run [ClickDemo, Detach (Outside 0)] demo_page) = [CloseButton] \<and>
   focusCalls (run [ClickDemo, Detach (Outside 0), KeyDown ''Escape'' False] demo_page) =
     [CloseButton, Outside 0] \<and>
   focusCalls (run [ClickDemo, Detach (Outside 0), Rerender, KeyDown ''Escape'' False] demo_page) =
     [CloseButton, Outside 0, CloseButton, CloseButton]"
  by (simp add: demo_page_def modal_eval)

theorem C1_close_restores_focus_witness:
  "activeElement (run [ClickDemo, KeyDown ''Tab'' False, Rerender, Detach (Child 0),
      ClickBackdrop] demo_page) = Some (Outside 0) \<and>
   focusCalls (run [ClickDemo, KeyDown ''Tab'' False, Rerender, Detach (Child 0),
      ClickBackdrop] demo_page) =
     [CloseButton, CloseButton, Outside 0, CloseButton, Outside 0] \<and>
   activeElement (run [ClickDemo, Detach (Outside 0), ClickBackdrop] demo_page) =
     Some PageBody \<and>
   focusCalls (run [ClickDemo, Detach (Outside 0), ClickBackdrop] demo_page) =
     [CloseButton, Outside 0] \<and>
   is_closed (run [ClickDemo, Detach (Outside 0), ClickBackdrop] demo_page)"
proof -
  let ?evs = "[KeyDown ''Tab'' False, Rerender, Detach (Child 0)]"
  let ?t = "\<lparr>prev = Some (Outside 0), focusable = Some [CloseButton]\<rparr>"
  define s where "s = run ?evs (step demo_page ClickDemo)"
  define u where "u = run [Detach (Outside 0)] (step demo_page ClickDemo)"
  have a: "activeElement demo_page = Some (Outside 0)" "takes_focus demo_page (Outside 0)"
    "Outside 0 \<notin> set (dialog_nodes (children demo_page))"
    by (simp_all add: demo_page_def takes_focus_def dialog_nodes_def dialog_descendants_def
        child_elements_def enumerate_eq_zip)
  have k: "list_all (keeps (Outside 0)) ?evs"
    by (simp add: keeps_def)
  have fs: "focusCalls s = [CloseButton, CloseButton, Outside 0, CloseButton]"
    by (simp add: s_def demo_page_def modal_eval)
  have u: "fishboneOpen u" "listener u = Some ?t" "\<not> takes_focus (unmount u) (Outside 0)"
    "activeElement (unmount u) = Some PageBody" "focusCalls u = [CloseButton]"
    by (simp_all add: u_def demo_page_def modal_eval)
  show ?thesis
    using C1_close_restores_focus [OF demo_closed a k s_def _ u(1,2), of ClickBackdrop "Outside 0"]
      fs u(3-5)
    by (simp add: run_def s_def u_def del: step.simps)
qed


lemma indexOf_in: "a \<in> set xs \<Longrightarrow> 0 \<le> indexOf xs a"
  by (induction xs) (auto simp: Let_def)

lemma indexOf_nth: "distinct xs \<Longrightarrow> i < length xs \<Longrightarrow> indexOf xs (xs ! i) = int i"
proof (induction xs arbitrary: i)
  case Nil
  then show ?case by simp
next
  case (Cons x xs)
  show ?case
  proof (cases i)
    case 0
    then show ?thesis by simp
  next
    case (Suc j)
    with Cons.prems have j: "j < length xs" "distinct xs" "xs ! j \<noteq> x"
      by auto
    with Cons.IH [of j] Suc show ?thesis
      by (auto simp: Let_def)
  qed
qed

lemma keydown_tab:
  assumes "fishboneOpen s" and "listener s = Some t" and "focusable t = Some list"
    and "list \<noteq> []"
  shows "step s (KeyDown ''Tab'' sh) =
    (if sh \<and> activeIndex list s \<le> 0 then focus (last list) s
     else if \<not> sh \<and> activeIndex list s = int (length list) - 1 then focus (hd list) s
     else s\<lparr>activeElement := tabDefault s sh (activeElement s)\<rparr>)"
proof -
  from assms(4) obtain x xs where l: "list = x # xs"
    by (cases list) auto
  show ?thesis
    using assms(1,2,3)
    by (simp add: l keydown_def onKey_def commit_def focus_frame Let_def del: last.simps)
qed

lemma turn_less: "i < n \<Longrightarrow> turn n i sh < n"
  by (auto simp: turn_def)

lemma tab_step:
  assumes "trapped list s" and "i < length list" and "activeElement s = Some (list ! i)"
  shows "trapped list (step s (KeyDown ''Tab'' sh))"
    and "activeElement (step s (KeyDown ''Tab'' sh)) = Some (list ! turn (length list) i sh)"
proof -
  from assms(1) obtain t where t: "fishboneOpen s" "listener s = Some t"
    "focusable t = Some list" "list \<noteq> []"
    by (auto simp: trapped_def)
  from assms(1) have d: "distinct list" and a: "\<And>n. n \<in> set list \<Longrightarrow> takes_focus s n"
    and o: "\<And>j. j < length list - 1 \<Longrightarrow>
      tabDefault s False (Some (list ! j)) = Some (list ! Suc j) \<and>
      tabDefault s True (Some (list ! Suc j)) = Some (list ! j)"
    by (auto simp: trapped_def in_tab_order_def list_all_iff)
  have idx: "activeIndex list s = int i"
    using d assms(2,3) by (simp add: activeIndex_def indexOf_nth)
  note st = keydown_tab [OF t, of sh]
  have la: "takes_focus s (last list)" and ha: "takes_focus s (hd list)"
    using t(4) a by simp_all
  have "step s (KeyDown ''Tab'' sh) = focus (last list) s \<or>
        step s (KeyDown ''Tab'' sh) = focus (hd list) s \<or>
        step s (KeyDown ''Tab'' sh) = s\<lparr>activeElement := tabDefault s sh (activeElement s)\<rparr>"
    unfolding st by simp
  then show "trapped list (step s (KeyDown ''Tab'' sh))"
    using assms(1) by (auto simp: trapped_def focus_frame takes_focus_frame simp del: step.simps)
  show "activeElement (step s (KeyDown ''Tab'' sh)) = Some (list ! turn (length list) i sh)"
  proof (cases sh)
    case True
    show ?thesis
    proof (cases "i = 0")
      case z: True
      then show ?thesis
        unfolding st using True idx la t(4)
        by (simp add: focus_frame turn_def last_conv_nth)
    next
      case False
      then obtain j where j: "i = Suc j" by (cases i) auto
      with assms(2) have "j < length list - 1" by simp
      from o [OF this] show ?thesis
        unfolding st using True idx assms(3) j
        by (simp add: turn_def)
    qed
  next
    case False
    show ?thesis
    proof (cases "Suc i = length list")
      case e: True
      then have "int i = int (length list) - 1" by simp
      then show ?thesis
        unfolding st using False idx ha t(4) e
        by (simp add: focus_frame turn_def hd_conv_nth)
    next
      case n: False
      with assms(2) have "i < length list - 1" by simp
      from o [OF this] show ?thesis
        unfolding st using False idx assms(3) n
        by (auto simp: turn_def)
    qed
  qed
qed

lemma press_tabs_cycle:
  assumes "trapped list s" and "i < length list" and "activeElement s = Some (list ! i)"
  shows "trapped list (press_tabs shs s) \<and>
         activeElement (press_tabs shs s) = Some (list ! cycle (length list) i shs) \<and>
         cycle (length list) i shs < length list"
  using assms unfolding press_tabs_def run_def cycle_def
proof (induction shs arbitrary: s i)
  case Nil
  then show ?case by simp
next
  case (Cons sh shs)
  have "trapped list (step s (KeyDown ''Tab'' sh))"
    and "activeElement (step s (KeyDown ''Tab'' sh)) = Some (list ! turn (length list) i sh)"
    and "turn (length list) i sh < length list"
    using Cons.prems by (simp_all only: tab_step turn_less)
  from Cons.IH [OF this(1,3,2)] show ?case
    by (simp del: step.simps)
qed


lemma child_nodes: "map nd (child_elements cs) = map Child [0..<length cs]"
proof -
  have "map nd (child_elements cs) = map (Child \<circ> fst) (enumerate 0 cs)"
    by (simp add: child_elements_def case_prod_beta comp_def)
  also have "\<dots> = map Child (map fst (enumerate 0 cs))"
    by (simp only: map_map)
  also have "\<dots> = map Child [0..<length cs]"
    by (simp only: map_fst_enumerate add_0)
  finally show ?thesis .
qed

lemma query_children:
  "distinct (querySelectorAll (child_elements cs))"
  "set (querySelectorAll (child_elements cs)) \<subseteq> Child ` {..<length cs}"
proof -
  have d: "distinct (map nd (child_elements cs))"
    by (simp add: child_nodes distinct_map inj_on_def)
  then show "distinct (querySelectorAll (child_elements cs))"
    unfolding querySelectorAll_def by (rule distinct_map_filter)
  have "set (querySelectorAll (child_elements cs)) \<subseteq> set (map nd (child_elements cs))"
    unfolding querySelectorAll_def by auto
  then show "set (querySelectorAll (child_elements cs)) \<subseteq> Child ` {..<length cs}"
    unfolding child_nodes by auto
qed

lemma query_in_dialog:
  "set (querySelectorAll (child_elements cs)) \<subseteq> set (dialog_nodes cs)"
  unfolding querySelectorAll_def dialog_nodes_def dialog_descendants_def by auto

lemma open_trapped:
  assumes "is_closed s0"
    and "list = CloseButton # querySelectorAll (child_elements (children s0))"
    and "in_tab_order list (tabDefault s0)"
    and "list_all (acceptsFocus s0) (querySelectorAll (child_elements (children s0)))"
  shows "trapped list (step s0 ClickDemo)"
    and "activeElement (step s0 ClickDemo) = Some (list ! 0)"
proof -
  have "distinct list"
    using query_children [of "children s0"] by (auto simp: assms(2))
  moreover have "takes_focus (step s0 ClickDemo) n" if "n \<in> set list" for n
  proof -
    have a: "attached (step s0 ClickDemo) n"
      using that query_in_dialog [of "children s0"]
      by (auto simp: assms(2) open_result [OF assms(1)] close_button_in_dialog
          simp del: step.simps)
    have "accepts (acceptsFocus s0) n"
    proof (cases "n = CloseButton")
      case True
      then show ?thesis by simp
    next
      case False
      with that have m: "n \<in> set (querySelectorAll (child_elements (children s0)))"
        by (simp add: assms(2))
      with query_children(2) [of "children s0"] obtain i where "n = Child i"
        by auto
      with m assms(4) show ?thesis
        by (auto simp: list_all_iff)
    qed
    with a show ?thesis
      by (simp add: takes_focus_def open_result(9) [OF assms(1)] del: step.simps)
  qed
  then have "list_all (takes_focus (step s0 ClickDemo)) list"
    by (simp add: list_all_iff)
  ultimately show "trapped list (step s0 ClickDemo)"
    using assms(2,3)
    by (simp add: trapped_def open_result [OF assms(1)] del: step.simps)
  show "activeElement (step s0 ClickDemo) = Some (list ! 0)"
    by (simp add: assms(2) open_result [OF assms(1)] del: step.simps)
qed

lemma buttons_closed: "is_closed buttons_page"
  by (simp add: is_closed_def buttons_page_def)

lemma mixed_closed: "is_closed mixed_page"
  by (simp add: is_closed_def mixed_page_def)

lemma buttons_query:
  "CloseButton # querySelectorAll (child_elements (children buttons_page)) =
     [CloseButton, Child 0, Child 1]"
  by (simp add: buttons_page_def child_elements_def querySelectorAll_def selector_matches_def
      enumerate_eq_zip upt_rec)

lemma mixed_query:
  "CloseButton # querySelectorAll (child_elements (children mixed_page)) =
     [CloseButton, Child 0, Child 2]"
  by (simp add: mixed_page_def child_elements_def querySelectorAll_def selector_matches_def
      enumerate_eq_zip upt_rec)

text \<open>
  C3 (amended): take an open modal whose listener holds the \<open>N \<ge> 1\<close> focusable
  descendants \<open>list\<close>, all in the document and able to take the focus, and let the
  browser's Tab order run through them. Starting with the focus on one of them, after any finite sequence of
  Tab and Shift+Tab presses the focus is on one of them again: on the one whose
  position results from moving cyclically, from the last to the first on Tab and from
  the first to the last on Shift+Tab.
\<close>

theorem C3_tab_cycles_in_modal:
  assumes "trapped list s" and "i < length list" and "activeElement s = Some (list ! i)"
  shows "activeElement (press_tabs shs s) \<in> Some ` set list \<and>
         activeElement (press_tabs shs s) = Some (list ! cycle (length list) i shs) \<and>
         turn (length list) (length list - 1) False = 0 \<and>
         turn (length list) 0 True = length list - 1"
proof -
  have "activeElement (press_tabs shs s) = Some (list ! cycle (length list) i shs)"
    and "cycle (length list) i shs < length list"
    using press_tabs_cycle [OF assms] by simp_all
  moreover have "turn (length list) (length list - 1) False = 0"
    using assms(2) by (simp add: turn_def)
  ultimately show ?thesis
    by (simp add: turn_def)
qed

theorem C3_tab_cycles_in_modal_witness:
  "trapped [CloseButton, Child 0, Child 1] (step buttons_page ClickDemo) \<and>
   activeElement (step buttons_page ClickDemo) = Some CloseButton \<and>
   activeElement (press_tabs [False, False, False, True] (step buttons_page ClickDemo)) =
     Some (Child 1) \<and>
   activeElement (press_tabs [False, False, False] (step buttons_page ClickDemo)) =
     Some CloseButton"
proof -
  let ?list = "[CloseButton, Child 0, Child 1]"
  have o: "in_tab_order ?list (tabDefault buttons_page)"
    by (simp add: in_tab_order_def buttons_page_def tab_in_order_def upt_rec)
  have f: "list_all (acceptsFocus buttons_page)
      (querySelectorAll (child_elements (children buttons_page)))"
    by (simp add: list_all_iff buttons_page_def)
  have t: "trapped ?list (step buttons_page ClickDemo)"
    and a: "activeElement (step buttons_page ClickDemo) = Some (?list ! 0)"
    using open_trapped [OF buttons_closed buttons_query [symmetric] o f] by blast+
  have c: "cycle (length ?list) 0 [False, False, False, True] = 2"
    "cycle (length ?list) 0 [False, False, False] = 0"
    by (simp_all add: cycle_def turn_def)
  show ?thesis
    using C3_tab_cycles_in_modal [OF t _ a, of "[False, False, False, True]"]
      C3_tab_cycles_in_modal [OF t _ a, of "[False, False, False]"] t a c
    by (simp del: step.simps)
qed

text \<open>
  C3, as the claim states it, fails: the listener acts on the first and the last element
  of its list only and leaves every other press to the browser. In a modal whose content
  is a button, an iframe and a button the list has three elements (the iframe is not
  matched); from the close button, the second Tab press puts the focus on the iframe,
  which is not one of the three.
\<close>

theorem C3_focus_leaves_list_counterexample:
  "map_option focusable (listener (step mixed_page ClickDemo)) =
     Some (Some [CloseButton, Child 0, Child 2]) \<and>
   activeElement (step mixed_page ClickDemo) = Some CloseButton \<and>
   activeElement (press_tabs [False, False] (step mixed_page ClickDemo)) = Some (Child 1) \<and>
   Child 1 \<notin> set [CloseButton, Child 0, Child 2]"
proof -
  have 1: "map_option focusable (listener (step mixed_page ClickDemo)) =
     Some (Some [CloseButton, Child 0, Child 2])"
    and 2: "activeElement (step mixed_page ClickDemo) = Some CloseButton"
    by (simp_all add: open_result [OF mixed_closed] mixed_query del: step.simps)
  have 3: "activeElement (press_tabs [False, False] (step mixed_page ClickDemo)) = Some (Child 1)"
    by (simp add: mixed_page_def modal_eval upt_rec)
  show ?thesis
    using 1 2 3 by simp
qed




text \<open>
  The modal is a machine with two states: an event takes an open or closed page to an
  open or closed page, so every page reached from a closed one is open or closed.
\<close>

lemma step_two_states:
  assumes "is_open s \<or> is_closed s"
  shows "is_open (step s ev) \<or> is_closed (step s ev)"
proof (cases "is_closed s")
  case True
  then have c: "\<not> fishboneOpen s" "listener s = None"
    by (simp_all add: is_closed_def)
  show ?thesis
  proof (cases ev)
    case ClickDemo
    then show ?thesis
      using open_result(3,4) [OF True] by (simp add: is_open_def del: step.simps)
  next
    case (KeyDown k sh)
    then show ?thesis
      using c by (simp add: keydown_def commit_def is_closed_def)
  qed (use c in \<open>simp_all add: is_closed_def rerender_def\<close>)
next
  case False
  with assms obtain t where o: "fishboneOpen s" "listener s = Some t"
    by (auto simp: is_open_def)
  show ?thesis
  proof (cases "closes ev")
    case True
    have "is_closed (Modal_cleanup t (unmount (onClose s)))"
      by (simp add: is_closed_def cleanup_frame unmount_frame onClose_def)
    then show ?thesis
      using step_close [OF o True] by simp
  next
    case False
    then show ?thesis
      using step_stays_open [OF o False] by (simp add: is_open_def del: step.simps)
  qed
qed

lemma run_two_states:
  assumes "is_closed s"
  shows "is_open (run evs s) \<or> is_closed (run evs s)"
proof -
  have "is_open (foldl step s evs) \<or> is_closed (foldl step s evs)"
    if "is_open s \<or> is_closed s" for s
    using that
  proof (induction evs arbitrary: s)
    case Nil
    then show ?case by simp
  next
    case (Cons ev evs)
    from Cons.IH [OF step_two_states [OF Cons.prems]] show ?case by simp
  qed
  with assms show ?thesis
    by (simp add: run_def)
qed

end
